theory Spec2Isabelle
  imports Main "HOL-Library.Word"
begin

unbundle bit_operations_syntax

section \<open>Basic types\<close>

type_synonym byte = "8 word"

text \<open>A public key is a 32-byte array; a switch port number is an unsigned 64-bit integer.\<close>

type_synonym PublicKey = "byte list"
type_synonym SwitchPortID = "64 word"

text \<open>Go's \<open>SwitchPorts\<close> is a slice, which can be \<open>nil\<close>: \<open>None\<close> is the nil slice.\<close>

type_synonym SwitchPorts = "SwitchPortID list option"

text \<open>
  Instants and durations are counted in nanoseconds, as \<open>time.Duration\<close> does; they are
  unbounded integers here (a \<open>time.Duration\<close> saturates after about 292 years). The
  current instant is an argument of every function that reads the clock.
\<close>

type_synonym Time = int
type_synonym Duration = int

section \<open>The peer (router/peer: \<open>Peer\<close>, \<open>peerStatistics\<close>)\<close>

text \<open>
  Modelled from the spec: the announcement type \<open>types.SwitchAnnouncement\<close> is declared
  outside the given sources; the peer code reads its \<open>RootPublicKey\<close> only. The fields
  follow the data model of the specification: root key, root sequence and the chain of
  signatures (port, key, signature).
\<close>

record SwitchAnnouncement =
  RootPublicKey :: PublicKey
  Sequence :: "64 word"
  Signatures :: "(SwitchPortID \<times> PublicKey \<times> byte list) list"

record rootAnnouncementWithTime =
  announcement_of :: SwitchAnnouncement
  at :: Time

record peerStatistics =
  txProtoSuccessful :: "64 word"
  txProtoDropped :: "64 word"
  txTrafficSuccessful :: "64 word"
  txTrafficDropped :: "64 word"
  rxDroppedNoDestination :: "64 word"

text \<open>
  The fields of \<open>Peer\<close> that the modelled methods read or write. The context is kept as
  the flag \<open>cancelled\<close> (set by \<open>p.cancel()\<close>), the connection as the flag
  \<open>conn_closed\<close> (set by \<open>p.conn.Close()\<close>).
\<close>

record Peer =
  port :: SwitchPortID
  started :: bool
  alive :: bool
  cancelled :: bool
  conn_closed :: bool
  public :: PublicKey
  coords :: SwitchPorts
  announcement :: "rootAnnouncementWithTime option"
  statistics :: peerStatistics

text \<open>
  The router as far as \<open>Router.RootPublicKey\<close> reads it: its own key and what
  \<open>r.state._rootAnnouncement()\<close> returns (a pointer, \<open>None\<close> for nil).
\<close>

record Router =
  router_public :: PublicKey
  state_rootAnnouncement :: "rootAnnouncementWithTime option"

datatype peer_error =
  AlreadyStarted
  | AlreadyStopped
  | PeerCoordsFailed string

text \<open>
  Modelled from the spec: the constant \<open>announcementTimeout\<close> is declared outside the
  given sources; the specification gives its default, 45 seconds.
\<close>

definition announcementTimeout :: Duration where
  "announcementTimeout = 45 * 1000000000"

definition reset :: "peerStatistics \<Rightarrow> peerStatistics" where
  "reset s = s\<lparr>txProtoSuccessful := 0, txProtoDropped := 0, txTrafficSuccessful := 0,
     txTrafficDropped := 0, rxDroppedNoDestination := 0\<rparr>"

definition RootPublicKey_of :: "Router \<Rightarrow> PublicKey" where
  "RootPublicKey_of r =
     (case state_rootAnnouncement r of
        Some ann \<Rightarrow> RootPublicKey (announcement_of ann)
      | None \<Rightarrow> router_public r)"

text \<open>\<open>time.Since(t)\<close> at the instant \<open>now\<close>.\<close>

definition since :: "Time \<Rightarrow> Time \<Rightarrow> Duration" where
  "since now t = now - t"

definition lastAnnouncement :: "Time \<Rightarrow> Peer \<Rightarrow> rootAnnouncementWithTime option" where
  "lastAnnouncement now p =
     (if \<not> started p then None
      else (case announcement p of
              Some a \<Rightarrow> if since now (at a) \<ge> announcementTimeout then None else Some a
            | None \<Rightarrow> None))"

definition SeenCommonRootRecently :: "Router \<Rightarrow> Time \<Rightarrow> Peer \<Rightarrow> bool" where
  "SeenCommonRootRecently r now p =
     (if \<not> alive p then False
      else (case lastAnnouncement now p of
              None \<Rightarrow> False
            | Some la \<Rightarrow> RootPublicKey (announcement_of la) = RootPublicKey_of r))"

definition SeenRecently :: "Time \<Rightarrow> Peer \<Rightarrow> bool" where
  "SeenRecently now p = (case lastAnnouncement now p of Some la \<Rightarrow> True | None \<Rightarrow> False)"

text \<open>
  \<open>updateAnnouncement\<close>: \<open>PeerCoords\<close> belongs to package \<open>types\<close> and is a parameter
  here; it returns the coordinates or an error message. The result is the returned error
  (\<open>None\<close> for nil) and the peer afterwards.
\<close>

definition updateAnnouncement ::
  "(SwitchAnnouncement \<Rightarrow> PublicKey \<Rightarrow> string + SwitchPorts) \<Rightarrow> Time \<Rightarrow>
   SwitchAnnouncement \<Rightarrow> Peer \<Rightarrow> peer_error option \<times> Peer" where
  "updateAnnouncement PeerCoords now new p =
     (case PeerCoords new (public p) of
        Inl err \<Rightarrow>
          (Some (PeerCoordsFailed err), p\<lparr>alive := False, announcement := None, coords := None\<rparr>)
      | Inr cs \<Rightarrow>
          (None, p\<lparr>alive := True,
                   announcement := Some \<lparr>announcement_of = new, at = now\<rparr>,
                   coords := cs\<rparr>))"

text \<open>
  \<open>stop\<close>: the compare-and-swap on \<open>started\<close>, then \<open>alive\<close> is cleared, the context
  cancelled and the connection closed.
\<close>

definition stop :: "Peer \<Rightarrow> peer_error option \<times> Peer" where
  "stop p =
     (if \<not> started p then (Some AlreadyStopped, p)
      else (None, p\<lparr>started := False, alive := False, cancelled := True, conn_closed := True\<rparr>))"

section \<open>Frames\<close>

text \<open>
  The frame as the tests build it (\<open>types.Frame\<close>): version, type, coordinates and keys of
  destination and source, the watermark and the payload. Coordinates are lists of port
  numbers; a nil and an empty coordinate list are both the empty list.
\<close>

record VirtualSnakeWatermark =
  wm_PublicKey :: PublicKey
  wm_Sequence :: "64 word"

record Frame =
  Version :: byte
  Type :: byte
  Destination :: "SwitchPortID list"
  DestinationKey :: PublicKey
  Source :: "SwitchPortID list"
  SourceKey :: PublicKey
  Watermark :: VirtualSnakeWatermark
  Payload :: "byte list"

definition Version0 :: byte where
  "Version0 = 0"

text \<open>The magic bytes, "pine".\<close>

definition FrameMagicBytes :: "byte list" where
  "FrameMagicBytes = [0x70, 0x69, 0x6e, 0x65]"

definition PublicKeySize :: nat where
  "PublicKeySize = 32"

section \<open>The reader of a peer (\<open>Peer.reader\<close>)\<close>

text \<open>
  The frame type constants that the reader's \<open>switch\<close> names are declared in package
  \<open>types\<close>, outside the given sources: they are a parameter of the model.
\<close>

record FrameTypeCodes =
  TypeVirtualSnakeBootstrap :: byte
  TypeVirtualSnakeBootstrapACK :: byte
  TypeVirtualSnakeSetup :: byte
  TypeVirtualSnakeTeardown :: byte
  TypeVirtualSnake :: byte
  TypeVirtualSnakePathfind :: byte

text \<open>\<open>binary.BigEndian.Uint16\<close> of a two-byte slice, converted to \<open>int\<close>.\<close>

definition Uint16 :: "byte list \<Rightarrow> nat" where
  "Uint16 b = unat ((ucast (b ! 1) :: 16 word) OR push_bit 8 (ucast (b ! 0) :: 16 word))"

text \<open>Go's \<open>b[i:j]\<close> on a slice that is long enough.\<close>

definition slice :: "'a list \<Rightarrow> nat \<Rightarrow> nat \<Rightarrow> 'a list" where
  "slice b i j = take (j - i) (drop i b)"

text \<open>
  The \<open>switch\<close> on the frame type that computes \<open>expecting\<close>; \<open>header\<close> is the eight
  bytes that follow the magic bytes (\<open>header = header[4:]\<close>). The cases are tried in the
  order of the source.
\<close>

definition expecting_of :: "FrameTypeCodes \<Rightarrow> byte list \<Rightarrow> nat" where
  "expecting_of c header =
     (if header ! 1 = TypeVirtualSnakeBootstrap c then
        (let payloadLen = Uint16 (slice header 2 4);
             coordsLen = Uint16 (slice header 4 6)
         in 10 + coordsLen + payloadLen + PublicKeySize)
      else if header ! 1 = TypeVirtualSnakeBootstrapACK c then
        (let payloadLen = Uint16 (slice header 2 4);
             dstLen = Uint16 (slice header 4 6);
             srcLen = Uint16 (slice header 6 8)
         in 12 + dstLen + srcLen + payloadLen + (PublicKeySize * 2))
      else if header ! 1 = TypeVirtualSnakeSetup c then
        (let payloadLen = Uint16 (slice header 2 4);
             coordsLen = Uint16 (slice header 4 6)
         in 10 + coordsLen + (PublicKeySize * 2) + payloadLen)
      else if header ! 1 = TypeVirtualSnakeTeardown c then
        (let payloadLen = Uint16 (slice header 2 4)
         in 8 + payloadLen + PublicKeySize)
      else if header ! 1 = TypeVirtualSnake c \<or> header ! 1 = TypeVirtualSnakePathfind c then
        (let payloadLen = Uint16 (slice header 2 4)
         in 8 + payloadLen + (PublicKeySize * 2))
      else
        (let dstLen = Uint16 (slice header 2 4);
             srcLen = Uint16 (slice header 4 6);
             payloadLen = Uint16 (slice header 6 8)
         in 12 + dstLen + srcLen + payloadLen))"

text \<open>
  What one pass through the body of the reader's loop ends in:
  \<^item> \<open>Disconnect\<close>: \<open>p.r.Disconnect\<close> is called and the reader returns;
  \<^item> \<open>Continue\<close>: \<open>continue\<close>, the loop goes on with the next pass;
  \<^item> \<open>Return\<close>: the reader returns, and \<open>p.r.Disconnect\<close> is not called;
  \<^item> \<open>Forward\<close>: the frame is handed to the forwarding code and the loop goes on;
  \<^item> \<open>Panic\<close>: slicing \<open>buf[:expecting]\<close> beyond the buffer.
\<close>

datatype reader_result =
  Disconnect string
  | Continue
  | Return
  | Forward Frame
  | Panic

text \<open>
  One pass of the loop (the \<open>default\<close> branch of the \<open>select\<close>). The connection is the
  list of the bytes the remote still sends before it closes: \<open>Peek(12)\<close> fails when fewer
  than 12 are left, \<open>io.ReadFull\<close> ends in \<open>io.ErrUnexpectedEOF\<close> when fewer than
  \<open>expecting\<close> are left (it has then read them all). Read errors other than the end of
  the stream are not part of this model. \<open>MaxFrameSize\<close> (the size of \<open>buf\<close>) and
  \<open>UnmarshalBinary\<close> are declared outside the given sources and are parameters. The
  result is paired with the bytes left on the connection.
\<close>

definition reader_step ::
  "FrameTypeCodes \<Rightarrow> nat \<Rightarrow> (byte list \<Rightarrow> string + Frame) \<Rightarrow> byte list
   \<Rightarrow> reader_result \<times> byte list" where
  "reader_step c MaxFrameSize UnmarshalBinary conn =
     (if length conn < 12 then (Disconnect ''p.conn.Peek'', conn)
      else
        (let header = take 12 conn in
         if slice header 0 4 \<noteq> FrameMagicBytes then (Continue, drop 1 conn)
         else
           (let header = drop 4 header;
                expecting = expecting_of c header
            in if expecting > MaxFrameSize then (Panic, conn)
               else if length conn < expecting then (Disconnect ''io.ReadFull'', [])
               else
                 (case UnmarshalBinary (take expecting conn) of
                    Inl err \<Rightarrow> (Return, drop expecting conn)
                  | Inr frame \<Rightarrow>
                      if Version frame \<noteq> Version0 then (Return, drop expecting conn)
                      else (Forward frame, drop expecting conn)))))"


section \<open>Variable-length integers\<close>

text \<open>
  The dissector's \<open>varu64\<close> (Lua). The \<open>bit32\<close> functions work on 32-bit unsigned
  numbers, so the accumulator \<open>n\<close> is a \<open>32 word\<close>; \<open>bytes:get_index(l)\<close> raises an
  error when \<open>l\<close> is not an index of the byte array. The result is the pair \<open>n, l\<close>.
\<close>

datatype lua_error = IndexOutOfRange

function varu64_loop :: "byte list \<Rightarrow> 32 word \<Rightarrow> nat \<Rightarrow> lua_error + (32 word \<times> nat)" where
  "varu64_loop bytes n l =
     (if l < 10 then
        (if l < length bytes then
           (let b = bytes ! l;
                n = push_bit 7 n;
                n = n OR ucast (b AND 0x7f);
                l = l + 1
            in if b AND 0x80 = 0 then Inr (n, l) else varu64_loop bytes n l)
         else Inl IndexOutOfRange)
      else Inr (n, l))"
  by pat_completeness auto
termination
  by (relation "measure (\<lambda>(bytes, n, l). 10 - l)") auto

declare varu64_loop.simps [simp del]

definition varu64 :: "byte list \<Rightarrow> lua_error + (32 word \<times> nat)" where
  "varu64 bytes = varu64_loop bytes 0 0"

text \<open>
  Modelled from the spec: the varint encoder (\<open>MarshalBinary\<close> of the port number type,
  package \<open>types\<close>) is not among the given sources. "Big-endian 7-bit groups with
  continuation bit in the MSB, most-significant group first": \<open>varint_groups\<close> gives the
  groups above the lowest one, each with the continuation bit set; the lowest group comes
  last, with the bit clear. The tests encode 5000 as \<open>a7 08\<close> and 100 as \<open>64\<close>.
\<close>

fun varint_groups :: "nat \<Rightarrow> byte list" where
  "varint_groups n =
     (if n = 0 then [] else varint_groups (n div 128) @ [of_nat (n mod 128) OR 0x80])"

declare varint_groups.simps [simp del]

definition varint_encode :: "nat \<Rightarrow> byte list" where
  "varint_encode n = varint_groups (n div 128) @ [of_nat (n mod 128)]"

section \<open>The frame codec\<close>

text \<open>
  Modelled from the spec: the codec of package \<open>types\<close> (\<open>Frame.MarshalBinary\<close>,
  \<open>Frame.UnmarshalBinary\<close> and the codecs of coordinates, watermark and port numbers) is
  not among the given sources; only its tests (\<open>types/frame_test.go\<close>) and the dissector
  that parses its output are. The definitions of this section follow the specification:
  the header \<open>magic(4) | version(1) | type(1) | extra(2) | frame_len(2)\<close>, big-endian
  integers, the per-type layouts, the varint encoding and the failures \<open>BufferTooSmall\<close>,
  \<open>BadMagic\<close>, \<open>UnsupportedVersion\<close>, \<open>Truncated\<close>, \<open>MalformedVarint\<close> and
  \<open>InconsistentLength\<close>. Where the specification leaves the bytes open, the two seed
  scenarios and the tests fix them: the two-byte payload length comes first in the body,
  coordinates are a two-byte length followed by the varints of the ports, a watermark is
  its key followed by the varint of its sequence number, and the value of \<open>frame_len\<close> is
  the length of the whole frame, header included (33 for the 33 bytes of the first
  scenario), which is also what the dissector takes it for.
\<close>

datatype codec_error =
  BufferTooSmall
  | BadMagic
  | UnsupportedVersion
  | Truncated
  | MalformedVarint
  | InconsistentLength

text \<open>The frame types, as the dissector's table \<open>frame_types\<close> and the specification
  number them.\<close>

definition TypeKeepalive :: byte where "TypeKeepalive = 0"
definition TypeTreeAnnouncement :: byte where "TypeTreeAnnouncement = 1"
definition TypeTreeRouted :: byte where "TypeTreeRouted = 2"
definition TypeBootstrap :: byte where "TypeBootstrap = 3"
definition TypeVirtualSnakeRouted :: byte where "TypeVirtualSnakeRouted = 4"
definition TypeSNEKPing :: byte where "TypeSNEKPing = 5"
definition TypeSNEKPong :: byte where "TypeSNEKPong = 6"
definition TypeTreePing :: byte where "TypeTreePing = 7"
definition TypeTreePong :: byte where "TypeTreePong = 8"

text \<open>
  The four body layouts, chosen by the frame type in the order of the dissector's
  \<open>if\<close> chain: keepalive; bootstrap; SNEK routed, ping and pong; everything else has the
  layout of the tree frames.
\<close>

datatype layout = KeepaliveLayout | BootstrapLayout | SnakeLayout | TreeLayout

definition layout_of :: "byte \<Rightarrow> layout" where
  "layout_of t =
     (if t = TypeKeepalive then KeepaliveLayout
      else if t = TypeBootstrap then BootstrapLayout
      else if t = TypeVirtualSnakeRouted \<or> t = TypeSNEKPing \<or> t = TypeSNEKPong then SnakeLayout
      else TreeLayout)"

text \<open>Modelled from the spec: a length as a big-endian 16-bit integer
  (\<open>binary.BigEndian.PutUint16\<close>), cut to 16 bits.\<close>

definition PutUint16 :: "nat \<Rightarrow> byte list" where
  "PutUint16 n = (let v = (of_nat n :: 16 word) in [ucast (drop_bit 8 v), ucast v])"

text \<open>
  Modelled from the spec: the varint decoder of package \<open>types\<close>: 7 bits per byte into a 64-bit number, up to the first byte without
  continuation bit; \<open>MalformedVarint\<close> when ten bytes have not ended it, \<open>Truncated\<close>
  when the input ends first. The first argument counts the bytes that may still be read.
\<close>

fun varint_decode_loop ::
  "nat \<Rightarrow> byte list \<Rightarrow> 64 word \<Rightarrow> nat \<Rightarrow> codec_error + (64 word \<times> nat)" where
  "varint_decode_loop 0 bs n l = Inl MalformedVarint"
| "varint_decode_loop (Suc k) [] n l = Inl Truncated"
| "varint_decode_loop (Suc k) (b # bs) n l =
     (let n = push_bit 7 n OR ucast (b AND 0x7f)
      in if b AND 0x80 = 0 then Inr (n, l + 1) else varint_decode_loop k bs n (l + 1))"

definition varint_decode :: "byte list \<Rightarrow> codec_error + (64 word \<times> nat)" where
  "varint_decode bs = varint_decode_loop 10 bs 0 0"

lemma varint_decode_loop_progress:
  "varint_decode_loop k bs n l = Inr (v, l') \<Longrightarrow> l < l'"
proof (induction k bs n l rule: varint_decode_loop.induct)
  case (3 k b bs n l)
  then show ?case by (fastforce simp: Let_def split: if_splits)
qed simp_all

text \<open>Modelled from the spec: the ports of coordinates, varints one after the other to
  the end of the input (as the dissector's \<open>coords\<close> reads them).\<close>

function ports_decode :: "byte list \<Rightarrow> codec_error + SwitchPortID list" where
  "ports_decode bs =
     (if bs = [] then Inr []
      else (case varint_decode bs of
              Inl e \<Rightarrow> Inl e
            | Inr (n, l) \<Rightarrow>
                (case ports_decode (drop l bs) of
                   Inl e \<Rightarrow> Inl e
                 | Inr ps \<Rightarrow> Inr (n # ps))))"
  by pat_completeness auto
termination
proof (relation "measure length")
  show "wf (measure length)" by simp
next
  fix bs :: "byte list" and x :: "64 word \<times> nat" and n l
  assume "bs \<noteq> []" and "varint_decode bs = Inr x" and "(n, l) = x"
  then have "0 < l"
    using varint_decode_loop_progress [of 10 bs 0 0 n l] by (simp add: varint_decode_def)
  with \<open>bs \<noteq> []\<close> show "(drop l bs, bs) \<in> measure length" by simp
qed

declare ports_decode.simps [simp del]

definition ports_encode :: "SwitchPortID list \<Rightarrow> byte list" where
  "ports_encode cs = concat (map (\<lambda>p. varint_encode (unat p)) cs)"

definition Coordinates_encode :: "SwitchPortID list \<Rightarrow> byte list" where
  "Coordinates_encode cs = PutUint16 (length (ports_encode cs)) @ ports_encode cs"

text \<open>Modelled from the spec: coordinates at the head of the input; the result is the
  coordinates and the number of bytes they took.\<close>

definition Coordinates_decode :: "byte list \<Rightarrow> codec_error + (SwitchPortID list \<times> nat)" where
  "Coordinates_decode bs =
     (if length bs < 2 then Inl Truncated
      else (let l = Uint16 (slice bs 0 2)
            in if length bs < 2 + l then Inl Truncated
               else (case ports_decode (slice bs 2 (2 + l)) of
                       Inl e \<Rightarrow> Inl e
                     | Inr cs \<Rightarrow> Inr (cs, 2 + l))))"

text \<open>Modelled from the spec: the watermark, its 32-byte key and the varint of its
  sequence number.\<close>

definition Watermark_encode :: "VirtualSnakeWatermark \<Rightarrow> byte list" where
  "Watermark_encode w = wm_PublicKey w @ varint_encode (unat (wm_Sequence w))"

definition Watermark_decode :: "byte list \<Rightarrow> codec_error + (VirtualSnakeWatermark \<times> nat)" where
  "Watermark_decode bs =
     (if length bs < PublicKeySize then Inl Truncated
      else (case varint_decode (drop PublicKeySize bs) of
              Inl e \<Rightarrow> Inl e
            | Inr (n, l) \<Rightarrow>
                Inr (\<lparr>wm_PublicKey = take PublicKeySize bs, wm_Sequence = n\<rparr>,
                     PublicKeySize + l)))"

text \<open>Modelled from the spec: the body of a frame, everything after the ten bytes of the
  header, by the layout of its type.\<close>

definition frame_body :: "Frame \<Rightarrow> byte list" where
  "frame_body f =
     (case layout_of (Type f) of
        KeepaliveLayout \<Rightarrow> []
      | BootstrapLayout \<Rightarrow>
          PutUint16 (length (Payload f)) @ DestinationKey f @ Watermark_encode (Watermark f)
            @ Payload f
      | SnakeLayout \<Rightarrow>
          PutUint16 (length (Payload f)) @ DestinationKey f @ SourceKey f
            @ Watermark_encode (Watermark f) @ Payload f
      | TreeLayout \<Rightarrow>
          PutUint16 (length (Payload f)) @ Coordinates_encode (Destination f)
            @ Coordinates_encode (Source f) @ Payload f)"

text \<open>
  Modelled from the spec: \<open>Frame.MarshalBinary\<close> into a buffer of \<open>cap\<close> bytes: the bytes written (their number is the
  returned \<open>n\<close>), or \<open>BufferTooSmall\<close>.
\<close>

definition MarshalBinary :: "Frame \<Rightarrow> nat \<Rightarrow> codec_error + byte list" where
  "MarshalBinary f cap =
     (let body = frame_body f;
          n = 10 + length body
      in if cap < n then Inl BufferTooSmall
         else Inr (FrameMagicBytes @ [Version f, Type f, 0, 0] @ PutUint16 n @ body))"

text \<open>The frame that \<open>UnmarshalBinary\<close> fills in, as the tests pass it: all fields at
  their zero values.\<close>

definition zero_key :: PublicKey where
  "zero_key = replicate 32 0"

definition zero_frame :: Frame where
  "zero_frame = \<lparr>Version = 0, Type = 0, Destination = [], DestinationKey = zero_key,
     Source = [], SourceKey = zero_key,
     Watermark = \<lparr>wm_PublicKey = zero_key, wm_Sequence = 0\<rparr>, Payload = []\<rparr>"

text \<open>Modelled from the spec: the payload is what is left of the body; it must have the
  announced length.\<close>

definition payload_of :: "nat \<Rightarrow> byte list \<Rightarrow> codec_error + byte list" where
  "payload_of plen bs =
     (if length bs < plen then Inl Truncated
      else if plen < length bs then Inl InconsistentLength
      else Inr bs)"

text \<open>Modelled from the spec: the body of a frame parsed into the frame \<open>f\<close>, which
  holds version and type already.\<close>

definition unmarshal_body :: "Frame \<Rightarrow> byte list \<Rightarrow> codec_error + Frame" where
  "unmarshal_body f body =
     (case layout_of (Type f) of
        KeepaliveLayout \<Rightarrow> if body = [] then Inr f else Inl InconsistentLength
      | BootstrapLayout \<Rightarrow>
          if length body < 2 + PublicKeySize then Inl Truncated
          else (case Watermark_decode (drop (2 + PublicKeySize) body) of
                  Inl e \<Rightarrow> Inl e
                | Inr (w, wn) \<Rightarrow>
                    (case payload_of (Uint16 (slice body 0 2))
                            (drop (2 + PublicKeySize + wn) body) of
                       Inl e \<Rightarrow> Inl e
                     | Inr p \<Rightarrow>
                         Inr (f\<lparr>DestinationKey := slice body 2 (2 + PublicKeySize),
                                 Watermark := w, Payload := p\<rparr>)))
      | SnakeLayout \<Rightarrow>
          if length body < 2 + 2 * PublicKeySize then Inl Truncated
          else (case Watermark_decode (drop (2 + 2 * PublicKeySize) body) of
                  Inl e \<Rightarrow> Inl e
                | Inr (w, wn) \<Rightarrow>
                    (case payload_of (Uint16 (slice body 0 2))
                            (drop (2 + 2 * PublicKeySize + wn) body) of
                       Inl e \<Rightarrow> Inl e
                     | Inr p \<Rightarrow>
                         Inr (f\<lparr>DestinationKey := slice body 2 (2 + PublicKeySize),
                                 SourceKey :=
                                   slice body (2 + PublicKeySize) (2 + 2 * PublicKeySize),
                                 Watermark := w, Payload := p\<rparr>)))
      | TreeLayout \<Rightarrow>
          if length body < 2 then Inl Truncated
          else (case Coordinates_decode (drop 2 body) of
                  Inl e \<Rightarrow> Inl e
                | Inr (dst, dn) \<Rightarrow>
                    (case Coordinates_decode (drop (2 + dn) body) of
                       Inl e \<Rightarrow> Inl e
                     | Inr (src, sn) \<Rightarrow>
                         (case payload_of (Uint16 (slice body 0 2))
                                 (drop (2 + dn + sn) body) of
                            Inl e \<Rightarrow> Inl e
                          | Inr p \<Rightarrow>
                              Inr (f\<lparr>Destination := dst, Source := src, Payload := p\<rparr>)))))"

text \<open>Modelled from the spec: \<open>Frame.UnmarshalBinary\<close>; the result is the frame and the
  number of bytes it took.\<close>

definition UnmarshalBinary :: "byte list \<Rightarrow> codec_error + (Frame \<times> nat)" where
  "UnmarshalBinary bs =
     (if length bs < 10 then Inl Truncated
      else if slice bs 0 4 \<noteq> FrameMagicBytes then Inl BadMagic
      else if bs ! 4 \<noteq> Version0 then Inl UnsupportedVersion
      else (let n = Uint16 (slice bs 8 10)
            in if n < 10 then Inl InconsistentLength
               else if length bs < n then Inl Truncated
               else (case unmarshal_body (zero_frame\<lparr>Version := bs ! 4, Type := bs ! 5\<rparr>)
                            (slice bs 10 n) of
                       Inl e \<Rightarrow> Inl e
                     | Inr f \<Rightarrow> Inr (f, n))))"

text \<open>
  Well-formed frames: version 0, keys of 32 bytes, a frame of at most 65535 bytes (the
  range of \<open>frame_len\<close>), and the fields that the layout of the frame's type does not
  carry at their zero values.
\<close>

definition well_formed :: "Frame \<Rightarrow> bool" where
  "well_formed f =
     (Version f = Version0
      \<and> length (DestinationKey f) = PublicKeySize
      \<and> length (SourceKey f) = PublicKeySize
      \<and> length (wm_PublicKey (Watermark f)) = PublicKeySize
      \<and> 10 + length (frame_body f) \<le> 65535
      \<and> (case layout_of (Type f) of
            KeepaliveLayout \<Rightarrow>
              Destination f = [] \<and> Source f = [] \<and> DestinationKey f = zero_key
              \<and> SourceKey f = zero_key \<and> Payload f = []
              \<and> Watermark f = \<lparr>wm_PublicKey = zero_key, wm_Sequence = 0\<rparr>
          | BootstrapLayout \<Rightarrow>
              Destination f = [] \<and> Source f = [] \<and> SourceKey f = zero_key
          | SnakeLayout \<Rightarrow> Destination f = [] \<and> Source f = []
          | TreeLayout \<Rightarrow>
              DestinationKey f = zero_key \<and> SourceKey f = zero_key
              \<and> Watermark f = \<lparr>wm_PublicKey = zero_key, wm_Sequence = 0\<rparr>))"

text \<open>Sample values used by the closed theorems.\<close>

definition key_a :: PublicKey where
  "key_a = replicate 32 1"

definition key_b :: PublicKey where
  "key_b = replicate 32 2"

definition ann_a :: SwitchAnnouncement where
  "ann_a = \<lparr>RootPublicKey = key_a, Sequence = 1, Signatures = []\<rparr>"

definition stats_busy :: peerStatistics where
  "stats_busy = \<lparr>txProtoSuccessful = 5, txProtoDropped = 1, txTrafficSuccessful = 7,
     txTrafficDropped = 2, rxDroppedNoDestination = 3\<rparr>"

text \<open>A started, alive peer that stored \<open>ann_a\<close> at instant 0.\<close>

definition peer_a :: Peer where
  "peer_a = \<lparr>port = 1, started = True, alive = True, cancelled = False, conn_closed = False,
     public = key_b, coords = Some [1], announcement = Some \<lparr>announcement_of = ann_a, at = 0\<rparr>,
     statistics = stats_busy\<rparr>"

text \<open>Two stand-ins for \<open>PeerCoords\<close>: one that always fails, one that reads the ports
  of the signatures.\<close>

definition coords_fail :: "SwitchAnnouncement \<Rightarrow> PublicKey \<Rightarrow> string + SwitchPorts" where
  "coords_fail a k = Inl ''invalid announcement''"

definition coords_ports :: "SwitchAnnouncement \<Rightarrow> PublicKey \<Rightarrow> string + SwitchPorts" where
  "coords_ports a k = Inr (Some (map fst (Signatures a)))"

definition router_a :: Router where
  "router_a = \<lparr>router_public = key_b,
     state_rootAnnouncement = Some \<lparr>announcement_of = ann_a, at = 0\<rparr>\<rparr>"

text \<open>
  An assignment of the frame type constants for the closed theorems; type 0 is none of the
  six types the reader's \<open>switch\<close> names, so it takes the \<open>default\<close> branch.
\<close>

definition codes_sample :: FrameTypeCodes where
  "codes_sample = \<lparr>TypeVirtualSnakeBootstrap = 6, TypeVirtualSnakeBootstrapACK = 7,
     TypeVirtualSnakeSetup = 8, TypeVirtualSnakeTeardown = 9, TypeVirtualSnake = 10,
     TypeVirtualSnakePathfind = 11\<rparr>"

text \<open>Stand-ins for \<open>UnmarshalBinary\<close>: one that rejects every input, one that accepts
  every input and takes version and type from the header.\<close>

definition unmarshal_fail :: "byte list \<Rightarrow> string + Frame" where
  "unmarshal_fail b = Inl ''malformed frame''"

definition unmarshal_header :: "byte list \<Rightarrow> string + Frame" where
  "unmarshal_header b = Inr \<lparr>Version = b ! 4, Type = b ! 5, Destination = [],
     DestinationKey = replicate 32 0, Source = [], SourceKey = replicate 32 0,
     Watermark = \<lparr>wm_PublicKey = replicate 32 0, wm_Sequence = 0\<rparr>, Payload = []\<rparr>"

text \<open>Two streams with the same first ten bytes; they differ in byte 11.\<close>

definition stream_x :: "byte list" where
  "stream_x = [0x70, 0x69, 0x6e, 0x65, 0, 0, 0, 0, 0, 0, 0, 0, 0xaa, 0xbb]"


text \<open>A twelve-byte frame of version 1 with all lengths zero, followed by two bytes.\<close>

definition stream_v1 :: "byte list" where
  "stream_v1 = [0x70, 0x69, 0x6e, 0x65, 1, 0, 0, 0, 0, 0, 0, 0, 0xaa, 0xbb]"

text \<open>A stream that does not start with the magic bytes.\<close>

definition stream_nomagic :: "byte list" where
  "stream_nomagic = [0x00, 0x70, 0x69, 0x6e, 0x65, 0, 0, 0, 0, 0, 0, 0, 0, 0xaa]"

text \<open>The frames of the two seed scenarios: the tree routed frame of the first test, and
  the bootstrap frame of the second with its two keys left open.\<close>

definition frame_s1 :: Frame where
  "frame_s1 = \<lparr>Version = Version0, Type = TypeTreeRouted,
     Destination = [1, 2, 3, 4, 5000], DestinationKey = zero_key,
     Source = [4, 3, 2, 1], SourceKey = zero_key,
     Watermark = \<lparr>wm_PublicKey = zero_key, wm_Sequence = 0\<rparr>,
     Payload = [0x41, 0x42, 0x43, 0x44, 0x45, 0x46, 0x47]\<rparr>"

definition frame_s2 :: "PublicKey \<Rightarrow> PublicKey \<Rightarrow> Frame" where
  "frame_s2 DK WK = \<lparr>Version = Version0, Type = TypeBootstrap,
     Destination = [], DestinationKey = DK, Source = [], SourceKey = zero_key,
     Watermark = \<lparr>wm_PublicKey = WK, wm_Sequence = 100\<rparr>,
     Payload = [0x09, 0x09, 0x09, 0x09, 0x09]\<rparr>"

text \<open>The 33 bytes of the first seed scenario, as the test \<open>TestMarshalUnmarshalFrame\<close>
  expects them on the wire; bytes 8 and 9 are the frame length field.\<close>

definition wire_s1 :: "byte list" where
  "wire_s1 = [0x70, 0x69, 0x6e, 0x65, 0x00, 0x02, 0x00, 0x00, 0x00, 0x21, 0x00, 0x07,
          0x00, 0x06, 0x01, 0x02, 0x03, 0x04, 0xa7, 0x08,
          0x00, 0x04, 0x04, 0x03, 0x02, 0x01,
          0x41, 0x42, 0x43, 0x44, 0x45, 0x46, 0x47]"

section \<open>Properties of the peer\<close>

lemma lastAnnouncement_Some_iff:
  "lastAnnouncement now p = Some a \<longleftrightarrow>
     started p \<and> announcement p = Some a \<and> since now (at a) < announcementTimeout"
  by (auto simp: lastAnnouncement_def split: option.splits)

lemma lastAnnouncement_None_iff:
  "lastAnnouncement now p = None \<longleftrightarrow>
     \<not> started p \<or> announcement p = None \<or>
     (\<exists>a. announcement p = Some a \<and> since now (at a) \<ge> announcementTimeout)"
  by (auto simp: lastAnnouncement_def split: option.splits)


text \<open>
  C7 (as stated): \<open>SeenRecently\<close> is true exactly when the time since the stored
  announcement was received is below \<open>announcementTimeout\<close>. This fails for a peer that
  was stopped: the announcement stored one nanosecond ago is still there, and
  \<open>SeenRecently\<close> is false because the peer is not started.
\<close>

theorem SeenRecently_stopped_counterexample:
  "announcement (snd (stop peer_a)) = Some \<lparr>announcement_of = ann_a, at = 0\<rparr>
   \<and> since 1 0 < announcementTimeout
   \<and> \<not> SeenRecently 1 (snd (stop peer_a))"
  by (simp add: stop_def peer_a_def SeenRecently_def lastAnnouncement_def since_def
      announcementTimeout_def)

text \<open>
  C7 (amended): \<open>SeenRecently\<close> is true if and only if the peer is started, holds a stored
  announcement, and the time since that announcement was received is strictly less than
  \<open>announcementTimeout\<close> (45 seconds).
\<close>

theorem SeenRecently_iff:
  "SeenRecently now p \<longleftrightarrow>
     started p \<and> (\<exists>a. announcement p = Some a \<and> since now (at a) < announcementTimeout)"
  by (auto simp: SeenRecently_def lastAnnouncement_def split: option.splits)

theorem SeenRecently_iff_witness:
  "SeenRecently 44999999999 peer_a \<and> \<not> SeenRecently 45000000000 peer_a"
  using SeenRecently_iff [of 44999999999 peer_a] SeenRecently_iff [of 45000000000 peer_a]
  by (simp add: peer_a_def since_def announcementTimeout_def)

text \<open>
  C8 (as stated): stopping a peer resets its statistics counters to zero. \<open>stop\<close> does not
  touch the counters: a started peer with non-zero counters keeps them.
\<close>

theorem stop_keeps_statistics_counterexample:
  "fst (stop peer_a) = None
   \<and> txProtoSuccessful (statistics (snd (stop peer_a))) = 5
   \<and> txProtoDropped (statistics (snd (stop peer_a))) = 1
   \<and> txTrafficSuccessful (statistics (snd (stop peer_a))) = 7
   \<and> txTrafficDropped (statistics (snd (stop peer_a))) = 2
   \<and> rxDroppedNoDestination (statistics (snd (stop peer_a))) = 3"
  by (simp add: stop_def peer_a_def stats_busy_def)

text \<open>
  C8 (amended): \<open>peerStatistics.reset\<close> sets all five counters to zero; \<open>Peer.stop\<close>
  leaves the statistics as they are (it clears \<open>started\<close> and \<open>alive\<close>, cancels the
  context and closes the connection).
\<close>

theorem reset_zero_stop_unchanged:
  "reset s = \<lparr>txProtoSuccessful = 0, txProtoDropped = 0, txTrafficSuccessful = 0,
      txTrafficDropped = 0, rxDroppedNoDestination = 0\<rparr>
   \<and> statistics (snd (stop p)) = statistics p
   \<and> (started p \<longrightarrow> stop p = (None, p\<lparr>started := False, alive := False,
         cancelled := True, conn_closed := True\<rparr>))
   \<and> (\<not> started p \<longrightarrow> stop p = (Some AlreadyStopped, p))"
  by (cases s) (simp add: reset_def stop_def)

theorem reset_zero_stop_unchanged_witness:
  "reset stats_busy = \<lparr>txProtoSuccessful = 0, txProtoDropped = 0, txTrafficSuccessful = 0,
      txTrafficDropped = 0, rxDroppedNoDestination = 0\<rparr>
   \<and> statistics (snd (stop peer_a)) = stats_busy
   \<and> started peer_a
   \<and> stop peer_a = (None, peer_a\<lparr>started := False, alive := False,
         cancelled := True, conn_closed := True\<rparr>)
   \<and> \<not> started (snd (stop peer_a))
   \<and> stop (snd (stop peer_a)) = (Some AlreadyStopped, snd (stop peer_a))"
proof -
  have s: "started peer_a" by (simp add: peer_a_def)
  have st: "statistics peer_a = stats_busy" by (simp add: peer_a_def)
  note a = reset_zero_stop_unchanged [of stats_busy peer_a]
  note b = reset_zero_stop_unchanged [of stats_busy "snd (stop peer_a)"]
  have n: "\<not> started (snd (stop peer_a))" using a s by simp
  show ?thesis using a b s st n by simp
qed

text \<open>
  C9: when computing the peer's coordinates from the incoming announcement fails,
  \<open>updateAnnouncement\<close> returns an error and leaves the peer not alive, without stored
  announcement and without coordinates; when it succeeds, \<open>updateAnnouncement\<close> returns no
  error, sets \<open>alive\<close>, and stores the announcement with the receipt time and the computed
  coordinates. Nothing else of the peer changes.
\<close>

theorem updateAnnouncement_outcomes:
  "(PeerCoords new (public p) = Inl err \<longrightarrow>
      updateAnnouncement PeerCoords now new p =
        (Some (PeerCoordsFailed err),
         p\<lparr>alive := False, announcement := None, coords := None\<rparr>))
   \<and> (PeerCoords new (public p) = Inr cs \<longrightarrow>
      updateAnnouncement PeerCoords now new p =
        (None, p\<lparr>alive := True,
                 announcement := Some \<lparr>announcement_of = new, at = now\<rparr>,
                 coords := cs\<rparr>))"
  by (simp add: updateAnnouncement_def)

theorem updateAnnouncement_outcomes_witness:
  "coords_fail ann_a (public peer_a) = Inl ''invalid announcement''
   \<and> fst (updateAnnouncement coords_fail 7 ann_a peer_a)
       = Some (PeerCoordsFailed ''invalid announcement'')
   \<and> \<not> alive (snd (updateAnnouncement coords_fail 7 ann_a peer_a))
   \<and> announcement (snd (updateAnnouncement coords_fail 7 ann_a peer_a)) = None
   \<and> coords (snd (updateAnnouncement coords_fail 7 ann_a peer_a)) = None
   \<and> coords_ports ann_a (public peer_a) = Inr (Some [])
   \<and> fst (updateAnnouncement coords_ports 7 ann_a peer_a) = None
   \<and> alive (snd (updateAnnouncement coords_ports 7 ann_a peer_a))
   \<and> announcement (snd (updateAnnouncement coords_ports 7 ann_a peer_a))
       = Some \<lparr>announcement_of = ann_a, at = 7\<rparr>
   \<and> coords (snd (updateAnnouncement coords_ports 7 ann_a peer_a)) = Some []"
proof -
  have f: "coords_fail ann_a (public peer_a) = Inl ''invalid announcement''"
    by (simp add: coords_fail_def)
  have g: "coords_ports ann_a (public peer_a) = Inr (Some [])"
    by (simp add: coords_ports_def ann_a_def)
  note a = updateAnnouncement_outcomes
    [of coords_fail ann_a peer_a "''invalid announcement''" 7 None]
  note b = updateAnnouncement_outcomes
    [of coords_ports ann_a peer_a "''x''" 7 "Some []"]
  show ?thesis using a b f g by simp
qed

text \<open>
  C10: \<open>SeenCommonRootRecently\<close> is true if and only if the peer's \<open>alive\<close> flag is set, the
  peer is started and holds an announcement younger than \<open>announcementTimeout\<close>, and the
  root public key of that announcement equals the router's current root public key.
\<close>

theorem SeenCommonRootRecently_iff:
  "SeenCommonRootRecently r now p \<longleftrightarrow>
     alive p \<and> started p
     \<and> (\<exists>a. announcement p = Some a \<and> since now (at a) < announcementTimeout
            \<and> RootPublicKey (announcement_of a) = RootPublicKey_of r)"
  by (auto simp: SeenCommonRootRecently_def lastAnnouncement_def split: option.splits)

theorem SeenCommonRootRecently_iff_witness:
  "SeenCommonRootRecently router_a 10 peer_a
   \<and> \<not> SeenCommonRootRecently router_a 45000000000 peer_a
   \<and> \<not> SeenCommonRootRecently (router_a\<lparr>state_rootAnnouncement := None\<rparr>) 10 peer_a
   \<and> \<not> SeenCommonRootRecently router_a 10 (peer_a\<lparr>alive := False\<rparr>)
   \<and> \<not> SeenCommonRootRecently router_a 10 (snd (stop peer_a))"
  using SeenCommonRootRecently_iff [of router_a 10 peer_a]
    SeenCommonRootRecently_iff [of router_a 45000000000 peer_a]
    SeenCommonRootRecently_iff [of "router_a\<lparr>state_rootAnnouncement := None\<rparr>" 10 peer_a]
    SeenCommonRootRecently_iff [of router_a 10 "peer_a\<lparr>alive := False\<rparr>"]
    SeenCommonRootRecently_iff [of router_a 10 "snd (stop peer_a)"]
  by (simp add: peer_a_def router_a_def ann_a_def key_a_def key_b_def since_def
      announcementTimeout_def RootPublicKey_of_def stop_def)

section \<open>Properties of the reader\<close>


lemma reader_step_bad_magic:
  "12 \<le> length conn \<Longrightarrow> slice (take 12 conn) 0 4 \<noteq> FrameMagicBytes \<Longrightarrow>
   reader_step c M U conn = (Continue, drop 1 conn)"
  by (simp add: reader_step_def)

lemma reader_step_short:
  "length conn < 12 \<Longrightarrow> reader_step c M U conn = (Disconnect ''p.conn.Peek'', conn)"
  by (simp add: reader_step_def)


text \<open>
  Whatever the frame type constants are, some type byte is none of them, and for a frame of
  that type the length the reader asks for depends on bytes 10 and 11 of the stream.
\<close>

lemma other_type_exists: "\<exists>t::byte. t \<notin> {a, b, c, d, e, f}"
proof -
  have "card {a, b, c, d, e, f} \<le> 6" by (simp add: card_insert_if)
  moreover have "card (UNIV :: byte set) = 256" by (simp add: card_word)
  ultimately have "{a, b, c, d, e, f} \<noteq> UNIV" by auto
  then show ?thesis by blast
qed

lemma expecting_reads_bytes_10_11:
  "\<exists>t. expecting_of c [0, t, 0, 0, 0, 0, 0, 0] = 12 \<and> expecting_of c [0, t, 0, 0, 0, 0, 0, 1] = 13"
proof -
  obtain t where "t \<notin> {TypeVirtualSnakeBootstrap c, TypeVirtualSnakeBootstrapACK c,
      TypeVirtualSnakeSetup c, TypeVirtualSnakeTeardown c, TypeVirtualSnake c,
      TypeVirtualSnakePathfind c}"
    using other_type_exists by blast
  then have "expecting_of c [0, t, 0, 0, 0, 0, 0, 0] = 12
      \<and> expecting_of c [0, t, 0, 0, 0, 0, 0, 1] = 13"
    by (simp add: expecting_of_def slice_def Uint16_def)
  then show ?thesis ..
qed

text \<open>
  The number of bytes the reader asks for is its own sum of the 16-bit fields it finds in
  the peeked bytes; the frame length field of the header (bytes 8 and 9) is one of the
  summands at best. For the 33 bytes of the first seed scenario it is never 33, whatever
  the frame type constants are.
\<close>

lemma expecting_wire_s1:
  "expecting_of c (drop 4 (take 12 wire_s1)) \<in> {52, 75, 116, 107, 40, 72}"
  by (simp add: wire_s1_def expecting_of_def slice_def Uint16_def PublicKeySize_def Let_def)




text \<open>
  C4: a stream that does not begin with the magic bytes costs the reader one byte, and the
  loop goes on. When \<open>UnmarshalBinary\<close> fails, or the frame's version is not 0, the reader
  returns and \<open>Disconnect\<close> is not called: the result is \<open>Return\<close>, where the end of the
  stream gives \<open>Disconnect\<close>.
\<close>

theorem reader_returns_without_disconnect:
  assumes "12 \<le> length conn"
    and "slice (take 12 conn) 0 4 = FrameMagicBytes"
    and "expecting_of c (drop 4 (take 12 conn)) \<le> M"
    and "expecting_of c (drop 4 (take 12 conn)) \<le> length conn"
  shows "(U (take (expecting_of c (drop 4 (take 12 conn))) conn) = Inl err \<longrightarrow>
            reader_step c M U conn
              = (Return, drop (expecting_of c (drop 4 (take 12 conn))) conn))
    \<and> (U (take (expecting_of c (drop 4 (take 12 conn))) conn) = Inr frame
         \<and> Version frame \<noteq> Version0 \<longrightarrow>
            reader_step c M U conn
              = (Return, drop (expecting_of c (drop 4 (take 12 conn))) conn))"
  using assms by (simp add: reader_step_def Let_def)

theorem reader_returns_without_disconnect_witness:
  "reader_step codes_sample 65535 unmarshal_fail stream_x = (Return, [0xaa, 0xbb])
   \<and> reader_step codes_sample 65535 unmarshal_header stream_v1 = (Return, [0xaa, 0xbb])
   \<and> reader_step codes_sample 65535 unmarshal_header stream_nomagic
        = (Continue, drop 1 stream_nomagic)
   \<and> reader_step codes_sample 65535 unmarshal_header (take 11 stream_x)
        = (Disconnect ''p.conn.Peek'', take 11 stream_x)"
proof -
  have ex: "expecting_of codes_sample (drop 4 (take 12 stream_x)) = 12"
    by (simp add: stream_x_def codes_sample_def expecting_of_def slice_def Uint16_def)
  have ev: "expecting_of codes_sample (drop 4 (take 12 stream_v1)) = 12"
    by (simp add: stream_v1_def codes_sample_def expecting_of_def slice_def Uint16_def)
  have mx: "slice (take 12 stream_x) 0 4 = FrameMagicBytes"
    by (simp add: stream_x_def slice_def FrameMagicBytes_def)
  have mv: "slice (take 12 stream_v1) 0 4 = FrameMagicBytes"
    by (simp add: stream_v1_def slice_def FrameMagicBytes_def)
  have lx: "12 \<le> length stream_x" by (simp add: stream_x_def)
  have lv: "12 \<le> length stream_v1" by (simp add: stream_v1_def)
  have a: "reader_step codes_sample 65535 unmarshal_fail stream_x = (Return, [0xaa, 0xbb])"
    using reader_returns_without_disconnect [OF lx mx, of codes_sample 65535 unmarshal_fail
        "''malformed frame''"]
    by (simp add: ex unmarshal_fail_def) (simp add: stream_x_def)
  have b: "reader_step codes_sample 65535 unmarshal_header stream_v1 = (Return, [0xaa, 0xbb])"
    using reader_returns_without_disconnect [OF lv mv, of codes_sample 65535 unmarshal_header
        "''''" "projr (unmarshal_header (take 12 stream_v1))"]
    by (simp add: ev unmarshal_header_def Version0_def) (simp add: stream_v1_def)
  have c: "reader_step codes_sample 65535 unmarshal_header stream_nomagic
        = (Continue, drop 1 stream_nomagic)"
    by (rule reader_step_bad_magic)
       (simp_all add: stream_nomagic_def slice_def FrameMagicBytes_def)
  have d: "reader_step codes_sample 65535 unmarshal_header (take 11 stream_x)
        = (Disconnect ''p.conn.Peek'', take 11 stream_x)"
    by (rule reader_step_short) (simp add: stream_x_def)
  show ?thesis using a b c d by simp
qed

section \<open>Properties of the variable-length integers\<close>

lemma byte_80: "(0x80 :: byte) = 2 ^ 7" by simp
lemma byte_7f: "(0x7f :: byte) = mask 7" by (simp add: mask_eq_exp_minus_1)

lemma and_7f: "(x :: byte) AND 0x7f = take_bit 7 x"
  unfolding byte_7f by (simp add: take_bit_eq_mask)


lemma and_80: "((x :: byte) AND 0x80 = 0) = (\<not> bit x 7)"
  unfolding byte_80 by (rule and_exp_eq_0_iff_not_bit)

lemma bit7_or: "bit ((x :: byte) OR 0x80) 7"
  unfolding byte_80 by (simp add: bit_or_iff bit_exp_iff)

lemma take7_or: "take_bit 7 ((x :: byte) OR 0x80) = take_bit 7 x"
  unfolding byte_80 by (rule bit_eqI) (auto simp: bit_take_bit_iff bit_or_iff bit_exp_iff)

lemma take7_nat: "r < 128 \<Longrightarrow> take_bit 7 (r::nat) = r"
  by (simp add: take_bit_nat_eq_self_iff)


lemma take7_mod: "take_bit 7 (n::nat) = n mod 128"
  by (simp add: take_bit_eq_mod)

lemma take7_of_nat: "take_bit 7 (of_nat n :: byte) = of_nat (n mod 128)"
  using take_bit_of_nat [of 7 n, where ?'a = byte] by (simp only: take7_mod)

lemma nat_bit7: "r < 128 \<Longrightarrow> \<not> bit (r::nat) 7"
  by (simp add: bit_iff_odd)

lemma bit7_of_nat: "r < 128 \<Longrightarrow> \<not> bit (of_nat r :: byte) 7"
  by (simp only: bit_of_nat_iff nat_bit7 simp_thms)

lemma ucast_group: "r < 128 \<Longrightarrow> (ucast (of_nat r :: byte) :: 'a::len word) = of_nat r"
proof -
  assume r: "r < 128"
  have "take_bit 8 r = r" using r by (simp add: take_bit_nat_eq_self_iff)
  then show ?thesis by (simp add: unsigned_of_nat)
qed

lemma take_bit7_small: "r < 128 \<Longrightarrow> take_bit 7 (of_nat r :: 'a::len word) = of_nat r"
  using take_bit_of_nat [of 7 r, where ?'a = "'a word"] by (simp only: take7_nat)

lemma shift_or_group: "r < 128 \<Longrightarrow> push_bit 7 (of_nat m :: 'a::len word) OR of_nat r = of_nat (m * 128 + r)"
proof -
  assume r: "r < 128"
  have "push_bit 7 (of_nat m :: 'a word) OR take_bit 7 (of_nat r)
      = push_bit 7 (of_nat m) + take_bit 7 (of_nat r)"
    by (rule disjunctive_add [symmetric]) (auto simp: bit_push_bit_iff bit_take_bit_iff)
  then show ?thesis by (simp add: take_bit7_small [OF r] push_bit_eq_mult)
qed


lemma length_varint_groups: "m < 128 ^ j \<Longrightarrow> length (varint_groups m) \<le> j"
proof (induction j arbitrary: m)
  case 0
  then show ?case by (simp add: varint_groups.simps)
next
  case (Suc j)
  show ?case
  proof (cases "m = 0")
    case True
    then show ?thesis by (simp add: varint_groups.simps)
  next
    case False
    from Suc.prems have "m div 128 < 128 ^ j"
      by (simp add: less_mult_imp_div_less mult.commute)
    then have "length (varint_groups (m div 128)) \<le> j" by (rule Suc.IH)
    with False show ?thesis by (subst varint_groups.simps) simp
  qed
qed

lemma group_step:
  "push_bit 7 (of_nat x :: 'a::len word) OR ucast ((of_nat (m mod 128) OR 0x80 :: byte) AND 0x7f)
     = of_nat (x * 128 + m mod 128)"
proof -
  have r: "m mod 128 < 128" by simp
  have "(of_nat (m mod 128) OR 0x80 :: byte) AND 0x7f = of_nat (m mod 128)"
    by (simp only: and_7f take7_or take7_of_nat mod_mod_trivial)
  then show ?thesis by (simp only: ucast_group [OF r] shift_or_group [OF r])
qed

lemma last_step:
  "push_bit 7 (of_nat x :: 'a::len word) OR ucast ((of_nat (m mod 128) :: byte) AND 0x7f)
     = of_nat (x * 128 + m mod 128)"
proof -
  have r: "m mod 128 < 128" by simp
  have "(of_nat (m mod 128) :: byte) AND 0x7f = of_nat (m mod 128)"
    by (simp only: and_7f take7_of_nat mod_mod_trivial)
  then show ?thesis by (simp only: ucast_group [OF r] shift_or_group [OF r])
qed

lemma last_clear: "(of_nat (m mod 128) :: byte) AND 0x80 = 0"
  by (simp only: and_80 bit7_of_nat [of "m mod 128"] mod_less_divisor zero_less_numeral simp_thms)

lemma group_set: "((x::byte) OR 0x80) AND 0x80 \<noteq> 0"
  by (simp only: and_80 bit7_or simp_thms)


lemma varu64_loop_cont:
  "l < 10 \<Longrightarrow> l < length bs \<Longrightarrow> bs ! l AND 0x80 \<noteq> 0 \<Longrightarrow>
   varu64_loop bs n l = varu64_loop bs (push_bit 7 n OR ucast (bs ! l AND 0x7f)) (l + 1)"
  by (subst varu64_loop.simps) (simp add: Let_def)

lemma varu64_loop_last:
  "l < 10 \<Longrightarrow> l < length bs \<Longrightarrow> bs ! l AND 0x80 = 0 \<Longrightarrow>
   varu64_loop bs n l = Inr (push_bit 7 n OR ucast (bs ! l AND 0x7f), l + 1)"
  by (subst varu64_loop.simps) (simp add: Let_def)

lemma varu64_loop_groups:
  "length pre + length (varint_groups m) \<le> 10 \<Longrightarrow>
   varu64_loop (pre @ varint_groups m @ rest) (of_nat a) (length pre)
   = varu64_loop (pre @ varint_groups m @ rest)
       (of_nat (a * 128 ^ length (varint_groups m) + m)) (length pre + length (varint_groups m))"
proof (induction m arbitrary: rest rule: varint_groups.induct)
  case (1 m)
  show ?case
  proof (cases "m = 0")
    case True
    then show ?thesis by (simp add: varint_groups.simps)
  next
    case False
    define g :: byte where "g = of_nat (m mod 128) OR 0x80"
    define gs where "gs = varint_groups (m div 128)"
    define bs where "bs = pre @ gs @ g # rest"
    define x where "x = a * 128 ^ length gs + m div 128"
    have eq: "varint_groups m = gs @ [g]"
      using False by (subst varint_groups.simps) (simp add: g_def gs_def)
    have len: "length pre + length gs < 10" using "1.prems" eq by simp
    have bs: "pre @ varint_groups m @ rest = bs" by (simp add: eq bs_def)
    have ih: "varu64_loop bs (of_nat a) (length pre) = varu64_loop bs (of_nat x) (length pre + length gs)"
      using "1.IH" [OF False, of "g # rest"] len by (simp add: gs_def bs_def x_def)
    have nth: "bs ! (length pre + length gs) = g"
      by (simp add: nth_append bs_def)
    have inb: "length pre + length gs < length bs" by (simp add: bs_def)
    have cont: "bs ! (length pre + length gs) AND 0x80 \<noteq> 0"
      unfolding nth g_def by (rule group_set)
    have "varu64_loop bs (of_nat x) (length pre + length gs)
      = varu64_loop bs (push_bit 7 (of_nat x) OR ucast (g AND 0x7f)) (length pre + length gs + 1)"
      using varu64_loop_cont [OF len inb cont] by (simp only: nth)
    also have "push_bit 7 (of_nat x :: 32 word) OR ucast (g AND 0x7f) = of_nat (x * 128 + m mod 128)"
      unfolding g_def by (rule group_step)
    also have "x * 128 + m mod 128 = a * 128 ^ length (varint_groups m) + m"
      by (simp add: x_def eq algebra_simps)
    also have "length pre + length gs + 1 = length pre + length (varint_groups m)"
      by (simp add: eq)
    finally show ?thesis using ih by (simp only: bs)
  qed
qed

lemma varu64_encode:
  assumes "n < 2 ^ 32"
  shows "varu64 (varint_encode n @ rest) = Inr (of_nat n, length (varint_encode n))"
proof -
  define gs where "gs = varint_groups (n div 128)"
  define b :: byte where "b = of_nat (n mod 128)"
  define bs where "bs = gs @ b # rest"
  have "n div 128 < 128 ^ 4" using assms by simp
  then have len: "length gs \<le> 4" unfolding gs_def by (rule length_varint_groups)
  have enc: "varint_encode n @ rest = bs"
    by (simp add: varint_encode_def gs_def b_def bs_def)
  have lenc: "length (varint_encode n) = length gs + 1"
    by (simp add: varint_encode_def gs_def)
  have "varu64_loop ([] @ varint_groups (n div 128) @ (b # rest)) (of_nat 0) (length ([]::byte list))
      = varu64_loop ([] @ varint_groups (n div 128) @ (b # rest))
          (of_nat (0 * 128 ^ length (varint_groups (n div 128)) + n div 128))
          (length ([]::byte list) + length (varint_groups (n div 128)))"
    by (rule varu64_loop_groups) (use len in \<open>simp add: gs_def\<close>)
  then have a: "varu64_loop bs 0 0 = varu64_loop bs (of_nat (n div 128)) (length gs)"
    by (simp add: gs_def bs_def)
  have l10: "length gs < 10" using len by simp
  have inb: "length gs < length bs" by (simp add: bs_def)
  have nth: "bs ! length gs = b" by (simp add: bs_def)
  have clr: "bs ! length gs AND 0x80 = 0" unfolding nth b_def by (rule last_clear)
  have "varu64_loop bs (of_nat (n div 128)) (length gs)
      = Inr (push_bit 7 (of_nat (n div 128)) OR ucast (b AND 0x7f), length gs + 1)"
    using varu64_loop_last [OF l10 inb clr] by (simp only: nth)
  also have "push_bit 7 (of_nat (n div 128) :: 32 word) OR ucast (b AND 0x7f)
      = of_nat (n div 128 * 128 + n mod 128)"
    unfolding b_def by (rule last_step)
  also have "n div 128 * 128 + n mod 128 = n" by simp
  finally show ?thesis using a by (simp only: varu64_def enc lenc)
qed

lemma varu64_loop_bounds:
  "varu64_loop bs n l = Inr (v, k) \<Longrightarrow> l \<le> 10 \<Longrightarrow> l \<le> length bs \<Longrightarrow>
     l \<le> k \<and> k \<le> 10 \<and> k \<le> length bs \<and> (l < 10 \<longrightarrow> l < k)"
proof (induction bs n l rule: varu64_loop.induct)
  case (1 bytes n l)
  show ?case
  proof (cases "l < 10 \<and> l < length bytes \<and> bytes ! l AND 0x80 \<noteq> 0")
    case True
    then have "varu64_loop bytes n l
       = varu64_loop bytes (push_bit 7 n OR ucast (bytes ! l AND 0x7f)) (l + 1)"
      by (simp add: varu64_loop_cont)
    with "1.prems" have r: "varu64_loop bytes (push_bit 7 n OR ucast (bytes ! l AND 0x7f)) (l + 1) = Inr (v, k)"
      by simp
    have "l + 1 \<le> k \<and> k \<le> 10 \<and> k \<le> length bytes \<and> (l + 1 < 10 \<longrightarrow> l + 1 < k)"
      using True by (intro "1.IH" [OF _ _ refl refl refl refl _ r]) auto
    then show ?thesis by auto
  next
    case False
    then show ?thesis using "1.prems"
      by (subst (asm) varu64_loop.simps) (auto simp: Let_def split: if_splits)
  qed
qed

lemma varu64_loop_total:
  "10 \<le> length bs \<Longrightarrow> \<exists>v k. varu64_loop bs n l = Inr (v, k)"
proof (induction bs n l rule: varu64_loop.induct)
  case (1 bytes n l)
  show ?case
  proof (cases "l < 10 \<and> bytes ! l AND 0x80 \<noteq> 0")
    case True
    then have "varu64_loop bytes n l
       = varu64_loop bytes (push_bit 7 n OR ucast (bytes ! l AND 0x7f)) (l + 1)"
      using "1.prems" by (simp add: varu64_loop_cont)
    moreover have "\<exists>v k. varu64_loop bytes (push_bit 7 n OR ucast (bytes ! l AND 0x7f)) (l + 1) = Inr (v, k)"
      using True "1.prems" by (intro "1.IH" [OF _ _ refl refl refl refl]) auto
    ultimately show ?thesis by simp
  next
    case False
    then show ?thesis using "1.prems"
      by (subst varu64_loop.simps) (auto simp: Let_def)
  qed
qed

lemma length_varint_encode: "n < 2 ^ 32 \<Longrightarrow> length (varint_encode n) \<le> 5"
proof -
  assume "n < 2 ^ 32"
  then have "n div 128 < 128 ^ 4" by simp
  then have "length (varint_groups (n div 128)) \<le> 4" by (rule length_varint_groups)
  then show ?thesis by (simp add: varint_encode_def)
qed

text \<open>
  The dissector's \<open>varu64\<close> is not the codec's decoder: its \<open>bit32\<close> accumulator keeps 32
  bits, so the encoding of \<open>2^32\<close> is shown as 0, and after ten bytes with the continuation
  bit it returns the accumulated number with the length 10 instead of failing.
\<close>

lemma varu64_keeps_32_bits:
  "varint_encode 4294967296 = [0x90, 0x80, 0x80, 0x80, 0x00]
   \<and> varu64 (varint_encode 4294967296) = Inr (0, 5)
   \<and> varu64 [0x80, 0x80, 0x80, 0x80, 0x80, 0x80, 0x80, 0x80, 0x80, 0x80, 0x80, 0x01]
        = Inr (0, 10)"
  by (simp add: varint_encode_def varint_groups.simps varu64_def varu64_loop.simps)

text \<open>
  Below \<open>2^32\<close> the dissector shows what the codec wrote; it reads at most ten bytes and,
  given ten bytes, always returns a number.
\<close>

lemma varu64_below_2_32:
  "(n < 2 ^ 32 \<longrightarrow>
      varu64 (varint_encode n @ rest) = Inr (of_nat n, length (varint_encode n))
      \<and> unat (of_nat n :: 32 word) = n
      \<and> length (varint_encode n) \<le> 5)
   \<and> (varu64 bs = Inr (v, k) \<longrightarrow> 1 \<le> k \<and> k \<le> 10 \<and> k \<le> length bs)
   \<and> (10 \<le> length bs \<longrightarrow> (\<exists>v k. varu64 bs = Inr (v, k)))"
proof -
  have a: "n < 2 ^ 32 \<longrightarrow>
      varu64 (varint_encode n @ rest) = Inr (of_nat n, length (varint_encode n))
      \<and> unat (of_nat n :: 32 word) = n
      \<and> length (varint_encode n) \<le> 5"
    by (simp add: varu64_encode length_varint_encode unat_of_nat)
  have b: "varu64 bs = Inr (v, k) \<longrightarrow> 1 \<le> k \<and> k \<le> 10 \<and> k \<le> length bs"
    using varu64_loop_bounds [of bs 0 0 v k] by (auto simp: varu64_def)
  have c: "10 \<le> length bs \<longrightarrow> (\<exists>v k. varu64 bs = Inr (v, k))"
    using varu64_loop_total [of bs 0 0] by (simp add: varu64_def)
  show ?thesis using a b c by blast
qed

section \<open>Properties of the frame codec\<close>

lemma length_PutUint16 [simp]: "length (PutUint16 n) = 2"
  by (simp add: PutUint16_def Let_def)

lemma word16_split: "(ucast (ucast v :: byte) :: 16 word) OR push_bit 8 (ucast (ucast (drop_bit 8 v) :: byte)) = (v :: 16 word)"
  by (rule bit_eqI) (auto simp: bit_simps)

lemma Uint16_PutUint16: "n < 65536 \<Longrightarrow> Uint16 (PutUint16 n) = n"
proof -
  assume "n < 65536"
  then have "unat (of_nat n :: 16 word) = n" by (simp add: unat_of_nat)
  then show ?thesis by (simp add: Uint16_def PutUint16_def Let_def word16_split)
qed

lemma slice_PutUint16 [simp]: "slice (PutUint16 n @ rest) 0 2 = PutUint16 n"
  by (simp add: slice_def)

lemma varint_decode_loop_groups:
  "varint_decode_loop (k + length (varint_groups m)) (varint_groups m @ rest) (of_nat a) l
   = varint_decode_loop k rest (of_nat (a * 128 ^ length (varint_groups m) + m))
       (l + length (varint_groups m))"
proof (induction m arbitrary: rest k rule: varint_groups.induct)
  case (1 m)
  show ?case
  proof (cases "m = 0")
    case True
    then show ?thesis by (simp add: varint_groups.simps)
  next
    case False
    define g :: byte where "g = of_nat (m mod 128) OR 0x80"
    define gs where "gs = varint_groups (m div 128)"
    define x where "x = a * 128 ^ length gs + m div 128"
    have eq: "varint_groups m = gs @ [g]"
      using False by (subst varint_groups.simps) (simp add: g_def gs_def)
    have ih: "varint_decode_loop (Suc k + length gs) (gs @ (g # rest)) (of_nat a) l
        = varint_decode_loop (Suc k) (g # rest) (of_nat x) (l + length gs)"
      using "1.IH" [OF False, of "Suc k" "g # rest"] by (simp only: gs_def x_def)
    have cont: "g AND 0x80 \<noteq> 0" unfolding g_def by (rule group_set)
    have "varint_decode_loop (Suc k) (g # rest) (of_nat x) (l + length gs)
        = varint_decode_loop k rest (push_bit 7 (of_nat x) OR ucast (g AND 0x7f)) (l + length gs + 1)"
      using cont by (simp add: Let_def)
    also have "push_bit 7 (of_nat x :: 64 word) OR ucast (g AND 0x7f) = of_nat (x * 128 + m mod 128)"
      unfolding g_def by (rule group_step)
    also have "x * 128 + m mod 128 = a * 128 ^ length (varint_groups m) + m"
      by (simp add: x_def eq algebra_simps)
    also have "l + length gs + 1 = l + length (varint_groups m)" by (simp add: eq)
    finally have st: "varint_decode_loop (Suc k) (g # rest) (of_nat x) (l + length gs)
        = varint_decode_loop k rest (of_nat (a * 128 ^ length (varint_groups m) + m))
            (l + length (varint_groups m))" .
    have "k + length (varint_groups m) = Suc k + length gs" by (simp add: eq)
    moreover have "varint_groups m @ rest = gs @ (g # rest)" by (simp add: eq)
    ultimately show ?thesis using ih st by (simp only:)
  qed
qed

lemma varint_encode_nonempty [simp]: "varint_encode n \<noteq> []"
  by (simp add: varint_encode_def)

lemma length_varint_encode_64: "n < 2 ^ 64 \<Longrightarrow> length (varint_encode n) \<le> 10"
proof -
  assume "n < 2 ^ 64"
  then have "n div 128 < 128 ^ 9" by simp
  then have "length (varint_groups (n div 128)) \<le> 9" by (rule length_varint_groups)
  then show ?thesis by (simp add: varint_encode_def)
qed

lemma varint_decode_encode:
  "varint_decode (varint_encode (unat w) @ rest) = Inr (w, length (varint_encode (unat w)))"
proof -
  define n where "n = unat w"
  define gs where "gs = varint_groups (n div 128)"
  define b :: byte where "b = of_nat (n mod 128)"
  have "n < 2 ^ 64" unfolding n_def using unsigned_less [of w, where ?'a = nat] by simp
  then have "n div 128 < 128 ^ 9" by simp
  then have len: "length gs \<le> 9" unfolding gs_def by (rule length_varint_groups)
  define k where "k = 9 - length gs"
  have k: "Suc k + length gs = 10" using len by (simp add: k_def)
  have enc: "varint_encode n @ rest = gs @ (b # rest)"
    by (simp add: varint_encode_def gs_def b_def)
  have lenc: "length (varint_encode n) = length gs + 1"
    by (simp add: varint_encode_def gs_def)
  have a: "varint_decode_loop 10 (gs @ b # rest) 0 0
      = varint_decode_loop (Suc k) (b # rest) (of_nat (n div 128)) (length gs)"
  proof -
    have "varint_decode_loop 10 (gs @ b # rest) 0 0
        = varint_decode_loop (Suc k + length gs) (gs @ (b # rest)) (of_nat 0) 0"
      by (simp only: k semiring_1_class.of_nat_0)
    also have "\<dots> = varint_decode_loop (Suc k) (b # rest)
        (of_nat (0 * 128 ^ length gs + n div 128)) (0 + length gs)"
      unfolding gs_def by (rule varint_decode_loop_groups)
    also have "\<dots> = varint_decode_loop (Suc k) (b # rest) (of_nat (n div 128)) (length gs)"
      by simp
    finally show ?thesis .
  qed
  have clr: "b AND 0x80 = 0" unfolding b_def by (rule last_clear)
  have "varint_decode_loop (Suc k) (b # rest) (of_nat (n div 128)) (length gs)
      = Inr (push_bit 7 (of_nat (n div 128)) OR ucast (b AND 0x7f), length gs + 1)"
    using clr by (simp add: Let_def)
  also have "push_bit 7 (of_nat (n div 128) :: 64 word) OR ucast (b AND 0x7f)
      = of_nat (n div 128 * 128 + n mod 128)"
    unfolding b_def by (rule last_step)
  also have "n div 128 * 128 + n mod 128 = n" by simp
  also have "(of_nat n :: 64 word) = w" by (simp add: n_def)
  finally show ?thesis using a by (simp only: varint_decode_def enc lenc n_def [symmetric])
qed

lemma varint_decode_loop_Inr:
  "varint_decode_loop k bs n l = Inr (v, l') \<Longrightarrow>
     l < l' \<and> l' \<le> l + k \<and> l' \<le> l + length bs"
proof (induction k bs n l rule: varint_decode_loop.induct)
  case (3 k b bs n l)
  then show ?case by (fastforce simp: Let_def split: if_splits)
qed simp_all

lemma varint_decode_loop_Malformed:
  "varint_decode_loop k bs n l = Inl MalformedVarint \<longleftrightarrow>
     k \<le> length bs \<and> (\<forall>i<k. bs ! i AND 0x80 \<noteq> 0)"
proof (induction k bs n l rule: varint_decode_loop.induct)
  case (1 bs n l)
  show ?case by simp
next
  case (2 k n l)
  show ?case by simp
next
  case (3 k b bs n l)
  show ?case
  proof (cases "b AND 0x80 = 0")
    case True
    then show ?thesis by (auto simp: Let_def)
  next
    case False
    have "(\<forall>i<Suc k. (b # bs) ! i AND 0x80 \<noteq> 0) \<longleftrightarrow> (\<forall>i<k. bs ! i AND 0x80 \<noteq> 0)"
      using False by (auto simp: less_Suc_eq_0_disj)
    with False "3.IH" [OF refl False] show ?thesis by (simp add: Let_def)
  qed
qed

lemma varint_groups_cont: "b \<in> set (varint_groups m) \<Longrightarrow> b AND 0x80 \<noteq> 0"
proof (induction m rule: varint_groups.induct)
  case (1 m)
  show ?case
  proof (cases "m = 0")
    case True
    with "1.prems" show ?thesis by (simp add: varint_groups.simps)
  next
    case False
    from "1.prems" False
    have "b \<in> set (varint_groups (m div 128)) \<or> b = of_nat (m mod 128) OR 0x80"
      by (subst (asm) varint_groups.simps) auto
    then show ?thesis using "1.IH" [OF False] group_set by auto
  qed
qed

lemma varint_encode_shape:
  "(\<forall>b \<in> set (butlast (varint_encode n)). b AND 0x80 \<noteq> 0)
   \<and> last (varint_encode n) AND 0x80 = 0"
  by (simp add: varint_encode_def varint_groups_cont last_clear)

lemma varint_decode_encode_nat:
  assumes "n < 2 ^ 64"
  shows "varint_decode (varint_encode n @ rest) = Inr (of_nat n, length (varint_encode n))"
proof -
  have u: "unat (of_nat n :: 64 word) = n" using assms by (simp add: unat_of_nat)
  show ?thesis using varint_decode_encode [of "of_nat n" rest] by (simp only: u)
qed

text \<open>
  C2: for every unsigned integer \<open>n\<close> in \<open>[0, 2^63)\<close>, decoding the varint encoding of \<open>n\<close>
  (whatever follows it) returns \<open>n\<close>; the encoding is big-endian 7-bit groups, the
  most-significant group first, with the continuation bit (the MSB) set in every byte but
  the last, and has at most 10 bytes. Every decode ends within 10 bytes: a result comes
  with a length between 1 and 10, and the decoder fails with \<open>MalformedVarint\<close> exactly
  when the first ten bytes all carry the continuation bit.
\<close>

theorem varint_roundtrip:
  "(n < 2 ^ 63 \<longrightarrow>
      varint_decode (varint_encode n @ rest) = Inr (of_nat n, length (varint_encode n))
      \<and> unat (of_nat n :: 64 word) = n
      \<and> length (varint_encode n) \<le> 10
      \<and> (\<forall>b \<in> set (butlast (varint_encode n)). b AND 0x80 \<noteq> 0)
      \<and> last (varint_encode n) AND 0x80 = 0)
   \<and> (varint_decode bs = Inr (v, k) \<longrightarrow> 1 \<le> k \<and> k \<le> 10 \<and> k \<le> length bs)
   \<and> (varint_decode bs = Inl MalformedVarint \<longleftrightarrow>
        10 \<le> length bs \<and> (\<forall>i<10. bs ! i AND 0x80 \<noteq> 0))"
proof -
  have a: "n < 2 ^ 63 \<longrightarrow>
      varint_decode (varint_encode n @ rest) = Inr (of_nat n, length (varint_encode n))
      \<and> unat (of_nat n :: 64 word) = n
      \<and> length (varint_encode n) \<le> 10
      \<and> (\<forall>b \<in> set (butlast (varint_encode n)). b AND 0x80 \<noteq> 0)
      \<and> last (varint_encode n) AND 0x80 = 0"
  proof
    assume "n < 2 ^ 63"
    then have n: "n < 2 ^ 64" by simp
    have "unat (of_nat n :: 64 word) = n" using n by (simp add: unat_of_nat)
    then show "varint_decode (varint_encode n @ rest) = Inr (of_nat n, length (varint_encode n))
      \<and> unat (of_nat n :: 64 word) = n
      \<and> length (varint_encode n) \<le> 10
      \<and> (\<forall>b \<in> set (butlast (varint_encode n)). b AND 0x80 \<noteq> 0)
      \<and> last (varint_encode n) AND 0x80 = 0"
      using varint_decode_encode_nat [OF n] length_varint_encode_64 [OF n]
        varint_encode_shape [of n] by simp
  qed
  have b: "varint_decode bs = Inr (v, k) \<longrightarrow> 1 \<le> k \<and> k \<le> 10 \<and> k \<le> length bs"
    using varint_decode_loop_Inr [of 10 bs 0 0 v k] by (auto simp: varint_decode_def)
  have c: "varint_decode bs = Inl MalformedVarint \<longleftrightarrow>
        10 \<le> length bs \<and> (\<forall>i<10. bs ! i AND 0x80 \<noteq> 0)"
    unfolding varint_decode_def by (rule varint_decode_loop_Malformed)
  show ?thesis using a b c by blast
qed

theorem varint_roundtrip_witness:
  "varint_encode 5000 = [0xa7, 0x08]
   \<and> varint_decode (varint_encode 5000 @ [0x41, 0x42]) = Inr (5000, 2)
   \<and> varint_decode (varint_encode 9223372036854775807 @ [0x41])
        = Inr (9223372036854775807, 9)
   \<and> varint_decode [0x80, 0x80, 0x80, 0x80, 0x80, 0x80, 0x80, 0x80, 0x80, 0x80, 0x80, 0x01]
        = Inl MalformedVarint"
proof -
  let ?ten = "[0x80, 0x80, 0x80, 0x80, 0x80, 0x80, 0x80, 0x80, 0x80, 0x80, 0x80, 0x01] :: byte list"
  have e: "varint_encode 5000 = [0xa7, 0x08]"
    by (simp add: varint_encode_def varint_groups.simps)
  have l: "length (varint_encode 9223372036854775807) = 9"
    by (simp add: varint_encode_def varint_groups.simps)
  have a: "varint_decode (varint_encode 5000 @ [0x41, 0x42]) = Inr (5000, 2)"
    using varint_roundtrip [of 5000 "[0x41, 0x42]" "[]" 0 0] by (simp add: e)
  have b: "varint_decode (varint_encode 9223372036854775807 @ [0x41])
        = Inr (9223372036854775807, 9)"
    using varint_roundtrip [of 9223372036854775807 "[0x41]" "[]" 0 0] by (simp add: l)
  have "?ten ! i AND 0x80 \<noteq> 0" if "i < 10" for i
  proof -
    from that have "i = 0 \<or> i = 1 \<or> i = 2 \<or> i = 3 \<or> i = 4 \<or> i = 5 \<or> i = 6 \<or> i = 7
        \<or> i = 8 \<or> i = 9"
      by arith
    then show ?thesis by (elim disjE) simp_all
  qed
  then have c: "varint_decode ?ten = Inl MalformedVarint"
    using varint_roundtrip [of 0 "[]" ?ten 0 0] by simp
  show ?thesis using e a b c by simp
qed

lemma ports_decode_encode: "ports_decode (ports_encode cs) = Inr cs"
proof (induction cs)
  case Nil
  show ?case by (subst ports_decode.simps) (simp add: ports_encode_def)
next
  case (Cons c cs)
  have e: "ports_encode (c # cs) = varint_encode (unat c) @ ports_encode cs"
    by (simp add: ports_encode_def)
  show ?case
    by (subst ports_decode.simps) (simp add: e varint_decode_encode Cons.IH)
qed

lemma length_Coordinates_encode:
  "length (Coordinates_encode cs) = 2 + length (ports_encode cs)"
  by (simp add: Coordinates_encode_def)

lemma Coordinates_decode_encode:
  assumes "length (ports_encode cs) < 65536"
  shows "Coordinates_decode (Coordinates_encode cs @ rest)
     = Inr (cs, length (Coordinates_encode cs))"
proof -
  have hd: "slice (Coordinates_encode cs @ rest) 0 2 = PutUint16 (length (ports_encode cs))"
    by (simp add: Coordinates_encode_def)
  have u: "Uint16 (PutUint16 (length (ports_encode cs))) = length (ports_encode cs)"
    using assms by (rule Uint16_PutUint16)
  have s: "slice (Coordinates_encode cs @ rest) 2 (2 + length (ports_encode cs)) = ports_encode cs"
    by (simp add: Coordinates_encode_def slice_def)
  show ?thesis
    unfolding Coordinates_decode_def Let_def hd u s ports_decode_encode
    by (simp add: length_Coordinates_encode)
qed

lemma Watermark_decode_encode:
  assumes "length (wm_PublicKey w) = PublicKeySize"
  shows "Watermark_decode (Watermark_encode w @ rest) = Inr (w, length (Watermark_encode w))"
  using assms by (simp add: Watermark_decode_def Watermark_encode_def varint_decode_encode)


lemma payload_of_exact:
  "n < 65536 \<Longrightarrow> length p = n \<Longrightarrow> payload_of (Uint16 (PutUint16 n)) p = Inr p"
  by (simp add: payload_of_def Uint16_PutUint16)

lemma length_Watermark_encode:
  "length (Watermark_encode w)
     = length (wm_PublicKey w) + length (varint_encode (unat (wm_Sequence w)))"
  by (simp add: Watermark_encode_def)

lemma Type_zero_frame:
  "Type (zero_frame\<lparr>Version := v, Type := t\<rparr>) = t"
  by simp

lemma unmarshal_body_tree:
  assumes wf: "well_formed f" and lay: "layout_of (Type f) = TreeLayout"
  shows "unmarshal_body (zero_frame\<lparr>Version := Version f, Type := Type f\<rparr>) (frame_body f)
           = Inr f"
proof -
  define pl where "pl = PutUint16 (length (Payload f))"
  define d where "d = Coordinates_encode (Destination f)"
  define s where "s = Coordinates_encode (Source f)"
  have body: "frame_body f = pl @ d @ s @ Payload f"
    by (simp add: frame_body_def lay pl_def d_def s_def)
  have lpl: "length pl = 2" by (simp add: pl_def)
  have size: "10 + length (frame_body f) \<le> 65535" using wf by (simp add: well_formed_def)
  have dl: "length (ports_encode (Destination f)) < 65536"
    using size by (simp add: body d_def length_Coordinates_encode)
  have sl: "length (ports_encode (Source f)) < 65536"
    using size by (simp add: body s_def length_Coordinates_encode)
  have plen: "length (Payload f) < 65536" using size by (simp add: body)
  have d1: "Coordinates_decode (drop 2 (frame_body f)) = Inr (Destination f, length d)"
    using Coordinates_decode_encode [OF dl, of "s @ Payload f"] by (simp add: body lpl d_def)
  have d2: "Coordinates_decode (drop (2 + length d) (frame_body f)) = Inr (Source f, length s)"
    using Coordinates_decode_encode [OF sl, of "Payload f"] by (simp add: body lpl s_def)
  have d3: "drop (2 + length d + length s) (frame_body f) = Payload f"
    by (simp add: body lpl)
  have hd: "slice (frame_body f) 0 2 = pl" by (simp add: body pl_def)
  have p: "payload_of (Uint16 pl) (Payload f) = Inr (Payload f)"
    unfolding pl_def using plen by (simp add: payload_of_exact)
  have zero: "DestinationKey f = zero_key" "SourceKey f = zero_key"
      "Watermark f = \<lparr>wm_PublicKey = zero_key, wm_Sequence = 0\<rparr>"
    using wf by (simp_all add: well_formed_def lay)
  have eq: "zero_frame\<lparr>Version := Version f, Type := Type f, Destination := Destination f,
      Source := Source f, Payload := Payload f\<rparr> = f"
    using zero by (cases f) (simp add: zero_frame_def)
  have l2: "\<not> length (frame_body f) < 2" by (simp add: body lpl)
  show ?thesis
    by (simp only: unmarshal_body_def lay layout.case l2 if_False d1 d2 d3 hd p eq
        sum.case prod.case Type_zero_frame)
qed

lemma unmarshal_body_bootstrap:
  assumes wf: "well_formed f" and lay: "layout_of (Type f) = BootstrapLayout"
  shows "unmarshal_body (zero_frame\<lparr>Version := Version f, Type := Type f\<rparr>) (frame_body f)
           = Inr f"
proof -
  define pl where "pl = PutUint16 (length (Payload f))"
  define w where "w = Watermark_encode (Watermark f)"
  have body: "frame_body f = pl @ DestinationKey f @ w @ Payload f"
    by (simp add: frame_body_def lay pl_def w_def)
  have lpl: "length pl = 2" by (simp add: pl_def)
  have kl: "length (DestinationKey f) = 32" "length (wm_PublicKey (Watermark f)) = PublicKeySize"
    using wf by (simp_all add: well_formed_def PublicKeySize_def)
  have size: "10 + length (frame_body f) \<le> 65535" using wf by (simp add: well_formed_def)
  have plen: "length (Payload f) < 65536" using size by (simp add: body)
  have d1: "Watermark_decode (drop (2 + PublicKeySize) (frame_body f))
      = Inr (Watermark f, length w)"
    using Watermark_decode_encode [OF kl(2), of "Payload f"]
    by (simp add: body lpl kl PublicKeySize_def w_def)
  have d3: "drop (2 + PublicKeySize + length w) (frame_body f) = Payload f"
    by (simp add: body lpl kl PublicKeySize_def)
  have hd: "slice (frame_body f) 0 2 = pl" by (simp add: body pl_def)
  have dk: "slice (frame_body f) 2 (2 + PublicKeySize) = DestinationKey f"
    by (simp add: body lpl kl PublicKeySize_def slice_def)
  have p: "payload_of (Uint16 pl) (Payload f) = Inr (Payload f)"
    unfolding pl_def using plen by (simp add: payload_of_exact)
  have zero: "Destination f = []" "Source f = []" "SourceKey f = zero_key"
    using wf by (simp_all add: well_formed_def lay)
  have eq: "zero_frame\<lparr>Version := Version f, Type := Type f,
      DestinationKey := DestinationKey f, Watermark := Watermark f, Payload := Payload f\<rparr> = f"
    using zero by (cases f) (simp add: zero_frame_def)
  have l2: "\<not> length (frame_body f) < 2 + PublicKeySize"
    by (simp add: body lpl kl PublicKeySize_def)
  show ?thesis
    by (simp only: unmarshal_body_def lay layout.case l2 if_False d1 d3 hd dk p eq
        sum.case prod.case Type_zero_frame)
qed

lemma unmarshal_body_snake:
  assumes wf: "well_formed f" and lay: "layout_of (Type f) = SnakeLayout"
  shows "unmarshal_body (zero_frame\<lparr>Version := Version f, Type := Type f\<rparr>) (frame_body f)
           = Inr f"
proof -
  define pl where "pl = PutUint16 (length (Payload f))"
  define w where "w = Watermark_encode (Watermark f)"
  have body: "frame_body f = pl @ DestinationKey f @ SourceKey f @ w @ Payload f"
    by (simp add: frame_body_def lay pl_def w_def)
  have lpl: "length pl = 2" by (simp add: pl_def)
  have kl: "length (DestinationKey f) = 32" "length (SourceKey f) = 32"
      "length (wm_PublicKey (Watermark f)) = PublicKeySize"
    using wf by (simp_all add: well_formed_def PublicKeySize_def)
  have size: "10 + length (frame_body f) \<le> 65535" using wf by (simp add: well_formed_def)
  have plen: "length (Payload f) < 65536" using size by (simp add: body)
  have d1: "Watermark_decode (drop (2 + 2 * PublicKeySize) (frame_body f))
      = Inr (Watermark f, length w)"
    using Watermark_decode_encode [OF kl(3), of "Payload f"]
    by (simp add: body lpl kl PublicKeySize_def w_def)
  have d3: "drop (2 + 2 * PublicKeySize + length w) (frame_body f) = Payload f"
    by (simp add: body lpl kl PublicKeySize_def)
  have hd: "slice (frame_body f) 0 2 = pl" by (simp add: body pl_def)
  have dk: "slice (frame_body f) 2 (2 + PublicKeySize) = DestinationKey f"
    by (simp add: body lpl kl PublicKeySize_def slice_def)
  have sk: "slice (frame_body f) (2 + PublicKeySize) (2 + 2 * PublicKeySize) = SourceKey f"
    by (simp add: body lpl kl PublicKeySize_def slice_def)
  have p: "payload_of (Uint16 pl) (Payload f) = Inr (Payload f)"
    unfolding pl_def using plen by (simp add: payload_of_exact)
  have zero: "Destination f = []" "Source f = []"
    using wf by (simp_all add: well_formed_def lay)
  have eq: "zero_frame\<lparr>Version := Version f, Type := Type f,
      DestinationKey := DestinationKey f, SourceKey := SourceKey f,
      Watermark := Watermark f, Payload := Payload f\<rparr> = f"
    using zero by (cases f) (simp add: zero_frame_def)
  have l2: "\<not> length (frame_body f) < 2 + 2 * PublicKeySize"
    by (simp add: body lpl kl PublicKeySize_def)
  show ?thesis
    by (simp only: unmarshal_body_def lay layout.case l2 if_False d1 d3 hd dk sk p eq
        sum.case prod.case Type_zero_frame)
qed

lemma unmarshal_body_keepalive:
  assumes wf: "well_formed f" and lay: "layout_of (Type f) = KeepaliveLayout"
  shows "unmarshal_body (zero_frame\<lparr>Version := Version f, Type := Type f\<rparr>) (frame_body f)
           = Inr f"
proof -
  have zero: "Destination f = []" "Source f = []" "DestinationKey f = zero_key"
      "SourceKey f = zero_key" "Payload f = []"
      "Watermark f = \<lparr>wm_PublicKey = zero_key, wm_Sequence = 0\<rparr>"
    using wf by (simp_all add: well_formed_def lay)
  have eq: "zero_frame\<lparr>Version := Version f, Type := Type f\<rparr> = f"
    using zero by (cases f) (simp add: zero_frame_def)
  show ?thesis by (simp add: unmarshal_body_def frame_body_def lay eq)
qed

lemma unmarshal_body_frame_body:
  "well_formed f \<Longrightarrow>
   unmarshal_body (zero_frame\<lparr>Version := Version f, Type := Type f\<rparr>) (frame_body f) = Inr f"
  by (cases "layout_of (Type f)")
     (simp_all add: unmarshal_body_keepalive unmarshal_body_bootstrap unmarshal_body_snake
        unmarshal_body_tree)

lemma UnmarshalBinary_frame:
  assumes "n = 10 + length body" and "n \<le> 65535"
  shows "UnmarshalBinary (FrameMagicBytes @ [Version0, t, 0, 0] @ PutUint16 n @ body)
     = (case unmarshal_body (zero_frame\<lparr>Version := Version0, Type := t\<rparr>) body of
          Inl e \<Rightarrow> Inl e
        | Inr f \<Rightarrow> Inr (f, n))"
proof -
  define bs where "bs = FrameMagicBytes @ [Version0, t, 0, 0] @ PutUint16 n @ body"
  have len: "length bs = n" by (simp add: bs_def FrameMagicBytes_def assms(1))
  have m: "slice bs 0 4 = FrameMagicBytes" by (simp add: bs_def FrameMagicBytes_def slice_def)
  have v: "bs ! 4 = Version0" by (simp add: bs_def FrameMagicBytes_def)
  have ty: "bs ! 5 = t" by (simp add: bs_def FrameMagicBytes_def)
  have l: "slice bs 8 10 = PutUint16 n"
    by (simp add: bs_def FrameMagicBytes_def slice_def)
  have u: "Uint16 (PutUint16 n) = n" using assms(2) by (simp add: Uint16_PutUint16)
  have b: "slice bs 10 n = body"
    by (simp add: bs_def FrameMagicBytes_def slice_def assms(1))
  have n10: "\<not> n < 10" "\<not> length bs < 10" using assms(1) len by simp_all
  show ?thesis
    unfolding bs_def [symmetric] UnmarshalBinary_def Let_def m v ty l u b
    using n10 len by simp
qed

text \<open>
  C1: for every well-formed frame \<open>F\<close>, marshalling \<open>F\<close> into a buffer that holds it
  succeeds, and unmarshalling the bytes written yields \<open>F\<close> (version, type, destination
  and source coordinates, keys, watermark and payload) together with the number of bytes.
\<close>

theorem unmarshal_marshal_roundtrip:
  assumes "well_formed f" and "10 + length (frame_body f) \<le> cap"
  shows "\<exists>bs. MarshalBinary f cap = Inr bs \<and> UnmarshalBinary bs = Inr (f, length bs)"
proof -
  define n where "n = 10 + length (frame_body f)"
  define bs where "bs = FrameMagicBytes @ [Version f, Type f, 0, 0] @ PutUint16 n @ frame_body f"
  have v: "Version f = Version0" using assms(1) by (simp add: well_formed_def)
  have n: "n \<le> 65535" using assms(1) by (simp add: well_formed_def n_def)
  have m: "MarshalBinary f cap = Inr bs"
    using assms(2) by (simp add: MarshalBinary_def Let_def bs_def n_def)
  have len: "length bs = n" by (simp add: bs_def n_def FrameMagicBytes_def)
  have "UnmarshalBinary bs = Inr (f, n)"
    unfolding bs_def v
    using UnmarshalBinary_frame [OF n_def n, of "Type f"] unmarshal_body_frame_body [OF assms(1)]
    by (simp add: v)
  with m len show ?thesis by simp
qed

theorem unmarshal_marshal_roundtrip_witness:
  "well_formed frame_s1
   \<and> (\<exists>bs. MarshalBinary frame_s1 65535 = Inr bs
          \<and> UnmarshalBinary bs = Inr (frame_s1, length bs))
   \<and> well_formed (frame_s2 key_a key_b)
   \<and> (\<exists>bs. MarshalBinary (frame_s2 key_a key_b) 65535 = Inr bs
          \<and> UnmarshalBinary bs = Inr (frame_s2 key_a key_b, length bs))"
proof -
  have w1: "well_formed frame_s1"
    by (simp add: well_formed_def frame_body_def frame_s1_def layout_of_def TypeTreeRouted_def
        TypeKeepalive_def TypeBootstrap_def TypeVirtualSnakeRouted_def TypeSNEKPing_def
        TypeSNEKPong_def Coordinates_encode_def ports_encode_def varint_encode_def
        varint_groups.simps PutUint16_def Let_def Version0_def zero_key_def PublicKeySize_def)
  have l1: "10 + length (frame_body frame_s1) \<le> 65535"
    using w1 by (simp add: well_formed_def)
  have w2: "well_formed (frame_s2 key_a key_b)"
    by (simp add: well_formed_def frame_body_def frame_s2_def layout_of_def
        TypeKeepalive_def TypeBootstrap_def Watermark_encode_def varint_encode_def
        varint_groups.simps PutUint16_def Let_def Version0_def zero_key_def PublicKeySize_def
        key_a_def key_b_def)
  have l2: "10 + length (frame_body (frame_s2 key_a key_b)) \<le> 65535"
    using w2 by (simp add: well_formed_def)
  show ?thesis
    using w1 w2 unmarshal_marshal_roundtrip [OF w1 l1] unmarshal_marshal_roundtrip [OF w2 l2]
    by simp
qed

text \<open>
  The zero values in \<open>well_formed\<close> are needed: a keepalive frame has an empty body, so a
  payload put into one is not on the wire and does not come back.
\<close>

lemma keepalive_drops_payload:
  "MarshalBinary (frame_s1\<lparr>Type := TypeKeepalive\<rparr>) 65535
     = Inr [0x70, 0x69, 0x6e, 0x65, 0x00, 0x00, 0x00, 0x00, 0x00, 0x0a]
   \<and> UnmarshalBinary [0x70, 0x69, 0x6e, 0x65, 0x00, 0x00, 0x00, 0x00, 0x00, 0x0a]
     = Inr (zero_frame, 10)
   \<and> Payload zero_frame \<noteq> Payload (frame_s1\<lparr>Type := TypeKeepalive\<rparr>)"
  by (simp add: MarshalBinary_def UnmarshalBinary_def unmarshal_body_def frame_body_def
      frame_s1_def layout_of_def TypeKeepalive_def PutUint16_def Uint16_def slice_def Let_def
      FrameMagicBytes_def Version0_def zero_frame_def)

text \<open>
  C5: marshalling the frame \<open>{version 0, type 2 (tree routed), destination [1,2,3,4,5000],
  source [4,3,2,1], payload "ABCDEFG"}\<close> produces the 33 bytes
  \<open>70 69 6e 65 00 02 00 00 00 21 00 07 00 06 01 02 03 04 a7 08 00 04 04 03 02 01
  41 42 43 44 45 46 47\<close>, whose frame length field \<open>00 21\<close> is 33.
\<close>

theorem marshal_tree_routed_bytes:
  "MarshalBinary frame_s1 65535 =
     Inr [0x70, 0x69, 0x6e, 0x65, 0x00, 0x02, 0x00, 0x00, 0x00, 0x21, 0x00, 0x07,
          0x00, 0x06, 0x01, 0x02, 0x03, 0x04, 0xa7, 0x08,
          0x00, 0x04, 0x04, 0x03, 0x02, 0x01,
          0x41, 0x42, 0x43, 0x44, 0x45, 0x46, 0x47]
   \<and> length (projr (MarshalBinary frame_s1 65535)) = 33
   \<and> Uint16 (slice (projr (MarshalBinary frame_s1 65535)) 8 10) = 33"
  by (simp add: MarshalBinary_def frame_body_def frame_s1_def layout_of_def TypeTreeRouted_def
      TypeKeepalive_def TypeBootstrap_def TypeVirtualSnakeRouted_def TypeSNEKPing_def
      TypeSNEKPong_def Coordinates_encode_def ports_encode_def varint_encode_def
      varint_groups.simps PutUint16_def Let_def FrameMagicBytes_def Version0_def
      Uint16_def slice_def)

text \<open>
  C6: for every 32-byte destination key \<open>DK\<close> and watermark key \<open>WK\<close>, marshalling the
  bootstrap frame with watermark sequence 100 and payload \<open>09 09 09 09 09\<close> produces
  \<open>70 69 6e 65 | 00 03 00 00 | 00 52 | 00 05 | DK | WK | 64 | 09 09 09 09 09\<close>: 82 bytes,
  the frame length field is 82, and the varint of 100 is the single byte \<open>64\<close>.
\<close>

theorem marshal_bootstrap_bytes:
  assumes "length DK = 32" and "length WK = 32"
  shows "MarshalBinary (frame_s2 DK WK) 65535 =
       Inr ([0x70, 0x69, 0x6e, 0x65, 0x00, 0x03, 0x00, 0x00, 0x00, 0x52, 0x00, 0x05]
            @ DK @ WK @ [0x64] @ [0x09, 0x09, 0x09, 0x09, 0x09])
     \<and> length (projr (MarshalBinary (frame_s2 DK WK) 65535)) = 82
     \<and> Uint16 (slice (projr (MarshalBinary (frame_s2 DK WK) 65535)) 8 10) = 82
     \<and> varint_encode (unat (wm_Sequence (Watermark (frame_s2 DK WK)))) = [0x64]"
  using assms
  by (simp add: MarshalBinary_def frame_body_def frame_s2_def layout_of_def
      TypeKeepalive_def TypeBootstrap_def Watermark_encode_def varint_encode_def
      varint_groups.simps PutUint16_def Let_def FrameMagicBytes_def Version0_def
      Uint16_def slice_def)

theorem marshal_bootstrap_bytes_witness:
  "length key_a = 32 \<and> length key_b = 32
   \<and> MarshalBinary (frame_s2 key_a key_b) 65535 =
       Inr ([0x70, 0x69, 0x6e, 0x65, 0x00, 0x03, 0x00, 0x00, 0x00, 0x52, 0x00, 0x05]
            @ replicate 32 1 @ replicate 32 2 @ [0x64, 0x09, 0x09, 0x09, 0x09, 0x09])
   \<and> length (projr (MarshalBinary (frame_s2 key_a key_b) 65535)) = 82"
proof -
  have a: "length key_a = 32" by (simp add: key_a_def)
  have b: "length key_b = 32" by (simp add: key_b_def)
  show ?thesis
    using marshal_bootstrap_bytes [OF a b] a b by (simp add: key_a_def key_b_def)
qed

end
